theory Spec2Isabelle
  imports Main "HOL-Library.Sublist"
begin

section \<open>Python strings\<close>

text \<open>
  A Python \<^verbatim>\<open>str\<close> is modelled as a \<^typ>\<open>string\<close>: a list of characters whose code
  points lie below 256. Every character the program itself inspects or emits is ASCII.
\<close>

abbreviation nl :: char where
  "nl \<equiv> CHR ''\<newline>''"

abbreviation backslash :: char where
  "backslash \<equiv> CHR 0x5C"

text \<open>
  \<^verbatim>\<open>s.split('\n')\<close>: the pieces between newlines. The pieces of the rest of the
  string are never the empty list, so the last case below does not arise.
\<close>

fun split_nl :: "string \<Rightarrow> string list" where
  "split_nl [] = [[]]"
| "split_nl (c # cs) =
     (if c = nl then [] # split_nl cs
      else (case split_nl cs of
              l # ls \<Rightarrow> (c # l) # ls
            | [] \<Rightarrow> [[c]]))"

text \<open>\<^verbatim>\<open>'\n'.join(lines)\<close>.\<close>

fun join_nl :: "string list \<Rightarrow> string" where
  "join_nl [] = []"
| "join_nl [l] = l"
| "join_nl (l # m # ls) = l @ nl # join_nl (m # ls)"

text \<open>
  \<^verbatim>\<open>str.isspace\<close> on one character, for code points below 256: tab, line feed,
  vertical tab, form feed, carriage return, the four separators 0x1C to 0x1F, space,
  NEL (0x85) and the no-break space (0xA0).
\<close>

definition is_space :: "char \<Rightarrow> bool" where
  "is_space c = (c \<in> set [CHR 0x09, CHR 0x0A, CHR 0x0B, CHR 0x0C, CHR 0x0D,
                            CHR 0x1C, CHR 0x1D, CHR 0x1E, CHR 0x1F, CHR 0x20,
                            CHR 0x85, CHR 0xA0])"

text \<open>\<^verbatim>\<open>s.strip()\<close>: whitespace removed at both ends.\<close>

definition strip :: "string \<Rightarrow> string" where
  "strip s = rev (dropWhile is_space (rev (dropWhile is_space s)))"

text \<open>
  \<^verbatim>\<open>s.replace(old, new)\<close>: every occurrence of \<open>old\<close>, found from the left and
  never overlapping, becomes \<open>new\<close>; the text put in is not scanned again. With an
  empty \<open>old\<close>, Python puts \<open>new\<close> before every character and at the end.
\<close>

function str_replace :: "string \<Rightarrow> string \<Rightarrow> string \<Rightarrow> string" where
  "str_replace [] old new = (if old = [] then new else [])"
| "str_replace (c # cs) old new =
     (if old = [] then new @ c # str_replace cs old new
      else if prefix old (c # cs)
        then new @ str_replace (drop (length old) (c # cs)) old new
      else c # str_replace cs old new)"
  by pat_completeness auto
termination
  by (relation "measure (\<lambda>(s, old, new). length s)") auto

section \<open>Python's regular expressions, as far as the program uses them\<close>

text \<open>
  Every pattern of the program is a sequence of items: one character class with a
  quantifier, a group parenthesis, or an anchor. There is no alternation and no
  quantified group, and groups are not nested.
\<close>

datatype cls =
    Lit char            \<comment> \<open>one literal character\<close>
  | AnyChar             \<comment> \<open>\<^verbatim>\<open>[\s\S]\<close>: whitespace or not whitespace\<close>
  | Dot                 \<comment> \<open>\<^verbatim>\<open>.\<close>: not a newline, unless DOTALL\<close>
  | Letter              \<comment> \<open>\<^verbatim>\<open>[a-zA-Z]\<close>\<close>
  | Digit               \<comment> \<open>\<^verbatim>\<open>[0-9]\<close>\<close>
  | NoneOf string       \<comment> \<open>\<^verbatim>\<open>[^...]\<close>\<close>

datatype rep =
    Once
  | Opt                 \<comment> \<open>\<^verbatim>\<open>?\<close>, greedy\<close>
  | Star                \<comment> \<open>\<^verbatim>\<open>*\<close>, greedy\<close>
  | Plus                \<comment> \<open>\<^verbatim>\<open>+\<close>, greedy\<close>
  | LazyStar            \<comment> \<open>\<^verbatim>\<open>*?\<close>\<close>

datatype item =
    Ch cls rep
  | GrpOpen
  | GrpClose
  | Bol                 \<comment> \<open>\<^verbatim>\<open>^\<close>\<close>
  | Eol                 \<comment> \<open>\<^verbatim>\<open>$\<close>\<close>

record flags =
  multiline :: bool
  dotall :: bool

definition NOFLAGS :: flags where
  "NOFLAGS = \<lparr>multiline = False, dotall = False\<rparr>"

definition MULTILINE :: flags where
  "MULTILINE = \<lparr>multiline = True, dotall = False\<rparr>"

definition MULTILINE_DOTALL :: flags where
  "MULTILINE_DOTALL = \<lparr>multiline = True, dotall = True\<rparr>"

definition is_letter :: "char \<Rightarrow> bool" where
  "is_letter x = (x \<in> set ''abcdefghijklmnopqrstuvwxyzABCDEFGHIJKLMNOPQRSTUVWXYZ'')"

definition is_digit :: "char \<Rightarrow> bool" where
  "is_digit x = (x \<in> set ''0123456789'')"

fun cls_ok :: "flags \<Rightarrow> cls \<Rightarrow> char \<Rightarrow> bool" where
  "cls_ok f (Lit c) x = (x = c)"
| "cls_ok f AnyChar x = True"
| "cls_ok f Dot x = (dotall f \<or> x \<noteq> nl)"
| "cls_ok f Letter x = is_letter x"
| "cls_ok f Digit x = is_digit x"
| "cls_ok f (NoneOf cs) x = (x \<notin> set cs)"

text \<open>
  \<open>prev\<close> is the character before the current position, \<open>None\<close> at the start of
  the string.
\<close>

definition at_bol :: "flags \<Rightarrow> char option \<Rightarrow> bool" where
  "at_bol f prev = (prev = None \<or> (multiline f \<and> prev = Some nl))"

text \<open>
  \<^verbatim>\<open>$\<close> holds at the end of the string and before a newline that ends it; with
  MULTILINE before every newline.
\<close>

fun at_eol :: "flags \<Rightarrow> string \<Rightarrow> bool" where
  "at_eol f [] = True"
| "at_eol f (x # xs) = (x = nl \<and> (xs = [] \<or> multiline f))"

text \<open>
  The result of a match from the current position: the input left over, the text
  matched before the next closing parenthesis, and the groups closed so far, first
  group first.
\<close>

type_synonym mres = "string \<times> string \<times> string list"

fun consume :: "char \<Rightarrow> mres option \<Rightarrow> mres option" where
  "consume x None = None"
| "consume x (Some (r, u, g)) = Some (r, x # u, g)"

text \<open>
  The backtracking matcher: the first success in the order in which Python's engine
  tries the alternatives. A greedy quantifier takes a character before it tries the
  rest of the pattern, a lazy one tries the rest of the pattern first.
\<close>

fun match_here :: "flags \<Rightarrow> item list \<Rightarrow> char option \<Rightarrow> string \<Rightarrow> mres option" where
  "match_here f [] prev s = Some (s, [], [])"
| "match_here f (Bol # ps) prev s =
     (if at_bol f prev then match_here f ps prev s else None)"
| "match_here f (Eol # ps) prev s =
     (if at_eol f s then match_here f ps prev s else None)"
| "match_here f (GrpOpen # ps) prev s =
     (case match_here f ps prev s of
        None \<Rightarrow> None
      | Some (r, u, g) \<Rightarrow> Some (r, [], u # g))"
| "match_here f (GrpClose # ps) prev s =
     (case match_here f ps prev s of
        None \<Rightarrow> None
      | Some (r, u, g) \<Rightarrow> Some (r, [], g))"
| "match_here f (Ch c Once # ps) prev s =
     (case s of
        [] \<Rightarrow> None
      | x # xs \<Rightarrow> if cls_ok f c x then consume x (match_here f ps (Some x) xs) else None)"
| "match_here f (Ch c Opt # ps) prev s =
     (case s of
        [] \<Rightarrow> match_here f ps prev s
      | x # xs \<Rightarrow>
          if cls_ok f c x
          then (case consume x (match_here f ps (Some x) xs) of
                  Some m \<Rightarrow> Some m
                | None \<Rightarrow> match_here f ps prev s)
          else match_here f ps prev s)"
| "match_here f (Ch c Star # ps) prev s =
     (case s of
        [] \<Rightarrow> match_here f ps prev s
      | x # xs \<Rightarrow>
          if cls_ok f c x
          then (case consume x (match_here f (Ch c Star # ps) (Some x) xs) of
                  Some m \<Rightarrow> Some m
                | None \<Rightarrow> match_here f ps prev s)
          else match_here f ps prev s)"
| "match_here f (Ch c Plus # ps) prev s =
     (case s of
        [] \<Rightarrow> None
      | x # xs \<Rightarrow>
          if cls_ok f c x
          then consume x (match_here f (Ch c Star # ps) (Some x) xs)
          else None)"
| "match_here f (Ch c LazyStar # ps) prev s =
     (case match_here f ps prev s of
        Some m \<Rightarrow> Some m
      | None \<Rightarrow>
          (case s of
             [] \<Rightarrow> None
           | x # xs \<Rightarrow>
               if cls_ok f c x
               then consume x (match_here f (Ch c LazyStar # ps) (Some x) xs)
               else None))"

text \<open>\<^verbatim>\<open>re.match(pattern, s)\<close>, read as a truth value: a match at position 0.\<close>

definition re_match :: "flags \<Rightarrow> item list \<Rightarrow> string \<Rightarrow> bool" where
  "re_match f p s = (match_here f p None s \<noteq> None)"

text \<open>
  A replacement template: literal text and group references \<^verbatim>\<open>\1\<close>, \<^verbatim>\<open>\2\<close>.
  A group that took no part in the match expands to the empty string.
\<close>

datatype tpart = Txt string | Grp nat

fun expand_part :: "string list \<Rightarrow> tpart \<Rightarrow> string" where
  "expand_part g (Txt s) = s"
| "expand_part g (Grp i) = (if 0 < i \<and> i \<le> length g then g ! (i - 1) else [])"

definition expand :: "tpart list \<Rightarrow> string list \<Rightarrow> string" where
  "expand t g = concat (map (expand_part g) t)"

text \<open>
  The scan of \<^verbatim>\<open>re.sub\<close>: at each position from the left, a match is replaced and
  the scan goes on behind it; where there is none, one character is copied. After an
  empty match the next character is copied, so that the scan moves on.
\<close>

function sub_from :: "flags \<Rightarrow> item list \<Rightarrow> tpart list \<Rightarrow> char option \<Rightarrow> string \<Rightarrow> string" where
  "sub_from f p t prev s =
     (case match_here f p prev s of
        None \<Rightarrow>
          (case s of
             [] \<Rightarrow> []
           | x # xs \<Rightarrow> x # sub_from f p t (Some x) xs)
      | Some (r, u, g) \<Rightarrow>
          if length r < length s
          then expand t g @ sub_from f p t (Some (s ! (length s - length r - 1))) r
          else expand t g @
            (case s of
               [] \<Rightarrow> []
             | x # xs \<Rightarrow> x # sub_from f p t (Some x) xs))"
  by pat_completeness auto
termination
  by (relation "measure (\<lambda>(f, p, t, prev, s). length s)") auto

text \<open>
  Python compiles the template before it scans: a reference to a group the pattern
  does not have raises \<^verbatim>\<open>re.error\<close> (invalid group reference).
\<close>

datatype re_error = InvalidGroupReference nat

fun group_refs :: "tpart list \<Rightarrow> nat list" where
  "group_refs [] = []"
| "group_refs (Txt s # t) = group_refs t"
| "group_refs (Grp i # t) = i # group_refs t"

definition n_groups :: "item list \<Rightarrow> nat" where
  "n_groups p = length (filter (\<lambda>i. i = GrpOpen) p)"

definition re_sub :: "flags \<Rightarrow> item list \<Rightarrow> tpart list \<Rightarrow> string \<Rightarrow> re_error + string" where
  "re_sub f p t s =
     (case filter (\<lambda>i. i = 0 \<or> n_groups p < i) (group_refs t) of
        i # _ \<Rightarrow> Inl (InvalidGroupReference i)
      | [] \<Rightarrow> Inr (sub_from f p t None s))"

section \<open>The transformer\<close>

text \<open>A run of literal characters of a pattern.\<close>

definition lits :: "string \<Rightarrow> item list" where
  "lits s = map (\<lambda>c. Ch (Lit c) Once) s"

definition and_then :: "re_error + 'a \<Rightarrow> ('a \<Rightarrow> re_error + 'b) \<Rightarrow> re_error + 'b" where
  "and_then r k = (case r of Inl e \<Rightarrow> Inl e | Inr v \<Rightarrow> k v)"

subsection \<open>Fenced code blocks (lines 22 to 39)\<close>

text \<open>\<^verbatim>\<open>```dart\n?([\s\S]*?)```\<close>\<close>

definition fence_dart :: "item list" where
  "fence_dart =
     lits ''```dart'' @ [Ch (Lit nl) Opt, GrpOpen, Ch AnyChar LazyStar, GrpClose] @ lits ''```''"

text \<open>\<^verbatim>\<open>```([a-zA-Z]*)\n?([\s\S]*?)```\<close>\<close>

definition fence_tagged :: "item list" where
  "fence_tagged =
     lits ''```'' @ [GrpOpen, Ch Letter Star, GrpClose, Ch (Lit nl) Opt,
                     GrpOpen, Ch AnyChar LazyStar, GrpClose] @ lits ''```''"

text \<open>\<^verbatim>\<open>```\n?([\s\S]*?)```\<close>\<close>

definition fence_untagged :: "item list" where
  "fence_untagged =
     lits ''```'' @ [Ch (Lit nl) Opt, GrpOpen, Ch AnyChar LazyStar, GrpClose] @ lits ''```''"

definition pre_dart :: "tpart list" where
  "pre_dart =
     [Txt ''<pre class=\"language-dart line-numbers\"><code class=\"language-dart\">'',
      Grp 1, Txt ''</code></pre>'']"

definition pre_tagged :: "tpart list" where
  "pre_tagged =
     [Txt ''<pre class=\"language-'', Grp 1, Txt '' line-numbers\"><code class=\"language-'',
      Grp 1, Txt ''\">'', Grp 2, Txt ''</code></pre>'']"

definition code_blocks :: "string \<Rightarrow> re_error + string" where
  "code_blocks content =
     and_then (re_sub MULTILINE_DOTALL fence_dart pre_dart content) (\<lambda>content.
     and_then (re_sub MULTILINE_DOTALL fence_tagged pre_tagged content) (\<lambda>content.
     re_sub MULTILINE_DOTALL fence_untagged pre_dart content))"

subsection \<open>Inline code (line 42)\<close>

text \<open>\<^verbatim>\<open>`([^`\n]+)`\<close>\<close>

abbreviation inline_class :: cls where
  "inline_class \<equiv> NoneOf [CHR ''`'', nl]"

definition inline_pattern :: "item list" where
  "inline_pattern =
     [Ch (Lit CHR ''`'') Once, GrpOpen, Ch inline_class Plus, GrpClose,
      Ch (Lit CHR ''`'') Once]"

definition inline_code :: "string \<Rightarrow> re_error + string" where
  "inline_code content =
     re_sub NOFLAGS inline_pattern [Txt ''<code>'', Grp 1, Txt ''</code>''] content"

subsection \<open>Headers (lines 45 to 48)\<close>

text \<open>\<^verbatim>\<open>^# (.+)$\<close> and its siblings, the marker being one to four hashes and a space.\<close>

definition header_pattern :: "string \<Rightarrow> item list" where
  "header_pattern marker = [Bol] @ lits marker @ [GrpOpen, Ch Dot Plus, GrpClose, Eol]"

definition header_template :: "string \<Rightarrow> tpart list" where
  "header_template tag = [Txt (''<'' @ tag @ ''>''), Grp 1, Txt (''</'' @ tag @ ''>'')]"

definition headers :: "string \<Rightarrow> re_error + string" where
  "headers content =
     and_then (re_sub MULTILINE (header_pattern ''# '') (header_template ''h1'') content) (\<lambda>content.
     and_then (re_sub MULTILINE (header_pattern ''## '') (header_template ''h2'') content) (\<lambda>content.
     and_then (re_sub MULTILINE (header_pattern ''### '') (header_template ''h3'') content) (\<lambda>content.
     re_sub MULTILINE (header_pattern ''#### '') (header_template ''h4'') content)))"

subsection \<open>Lists (lines 51 to 89)\<close>

text \<open>\<^verbatim>\<open>^- \<close>\<close>

definition bullet_pattern :: "item list" where
  "bullet_pattern = [Bol] @ lits ''- ''"

text \<open>
  \<^verbatim>\<open>^[0-9]+\\. \<close> in a raw string: digits, then an escaped backslash, then the dot
  that stands for any character but a newline, then a space.
\<close>

abbreviation marker_tail :: "item list" where
  "marker_tail \<equiv> [Ch (Lit backslash) Once, Ch Dot Once, Ch (Lit CHR '' '') Once]"

definition numbered_pattern :: "item list" where
  "numbered_pattern = Bol # Ch Digit Plus # marker_tail"

text \<open>
  The numbered marker as the specification words it, for comparison with the pattern:
  one or more digits, then the two characters backslash and period, then a space.
\<close>

definition spec_numbered_marker :: "string \<Rightarrow> bool" where
  "spec_numbered_marker line =
     (takeWhile is_digit line \<noteq> [] \<and> prefix (backslash # ''. '') (dropWhile is_digit line))"

text \<open>
  The loop over the lines, with the loop's variables \<open>result\<close>, \<open>in_ul\<close> and
  \<open>in_ol\<close> as arguments; at the end of the input the open run is closed.
\<close>

fun list_loop :: "string list \<Rightarrow> bool \<Rightarrow> bool \<Rightarrow> string list \<Rightarrow> re_error + string list" where
  "list_loop result in_ul in_ol [] =
     Inr (result @ (if in_ul then [''</ul>''] else []) @ (if in_ol then [''</ol>''] else []))"
| "list_loop result in_ul in_ol (line # lines) =
     (if re_match NOFLAGS bullet_pattern line then
        list_loop
          (result @ (if \<not> in_ul then [''<ul>''] else []) @ (if in_ol then [''</ol>''] else [])
             @ [''<li>'' @ drop 2 line @ ''</li>''])
          True False lines
      else if re_match NOFLAGS numbered_pattern line then
        (case re_sub NOFLAGS numbered_pattern [] line of
           Inl e \<Rightarrow> Inl e
         | Inr cleaned_line \<Rightarrow>
             list_loop
               (result @ (if \<not> in_ol then [''<ol>''] else []) @ (if in_ul then [''</ul>''] else [])
                  @ [''<li>'' @ cleaned_line @ ''</li>''])
               False True lines)
      else
        list_loop
          (result @ (if in_ul then [''</ul>''] else []) @ (if in_ol then [''</ol>''] else [])
             @ [line])
          False False lines)"

definition lists :: "string \<Rightarrow> re_error + string" where
  "lists content =
     and_then (list_loop [] False False (split_nl content)) (\<lambda>result. Inr (join_nl result))"

subsection \<open>Bold and italic (lines 92 and 93)\<close>

text \<open>\<^verbatim>\<open>\*\*([^\*]+)\*\*\<close> and \<^verbatim>\<open>\*([^\*]+)\*\<close>\<close>

definition bold_pattern :: "item list" where
  "bold_pattern = lits ''**'' @ [GrpOpen, Ch (NoneOf ''*'') Plus, GrpClose] @ lits ''**''"

definition italic_pattern :: "item list" where
  "italic_pattern = lits ''*'' @ [GrpOpen, Ch (NoneOf ''*'') Plus, GrpClose] @ lits ''*''"

definition emphasis :: "string \<Rightarrow> re_error + string" where
  "emphasis content =
     and_then (re_sub NOFLAGS bold_pattern [Txt ''<strong>'', Grp 1, Txt ''</strong>''] content)
       (\<lambda>content.
     re_sub NOFLAGS italic_pattern [Txt ''<em>'', Grp 1, Txt ''</em>''] content)"

subsection \<open>Links (line 96)\<close>

text \<open>\<^verbatim>\<open>\[([^\]]+)\]\(([^\)]+)\)\<close>\<close>

definition link_pattern :: "item list" where
  "link_pattern =
     lits ''['' @ [GrpOpen, Ch (NoneOf '']'') Plus, GrpClose] @ lits ''](''
       @ [GrpOpen, Ch (NoneOf '')'') Plus, GrpClose] @ lits '')''"

definition links :: "string \<Rightarrow> re_error + string" where
  "links content =
     re_sub NOFLAGS link_pattern [Txt ''<a href=\"'', Grp 2, Txt ''\">'', Grp 1, Txt ''</a>'']
       content"

subsection \<open>Paragraphs (lines 99 to 107)\<close>

definition wrap_line :: "string \<Rightarrow> string" where
  "wrap_line line =
     (if strip line \<noteq> [] \<and> \<not> prefix ''<'' line \<and> \<not> line = ''<br>''
      then ''<p>'' @ line @ ''</p>''
      else line)"

definition wrap_paragraphs :: "string \<Rightarrow> string" where
  "wrap_paragraphs content = join_nl (map wrap_line (split_nl content))"

subsection \<open>The whole transform (lines 11 to 107)\<close>

definition convert_markdown_to_html :: "string \<Rightarrow> re_error + string" where
  "convert_markdown_to_html content =
     and_then (code_blocks content) (\<lambda>content.
     and_then (inline_code content) (\<lambda>content.
     and_then (headers content) (\<lambda>content.
     and_then (lists content) (\<lambda>content.
     and_then (emphasis content) (\<lambda>content.
     and_then (links content) (\<lambda>content.
     Inr (wrap_paragraphs content)))))))"

subsection \<open>Template substitution (lines 132 and 133 of \<^verbatim>\<open>convert_file\<close>)\<close>

definition final_html :: "string \<Rightarrow> string \<Rightarrow> string \<Rightarrow> string" where
  "final_html template title html_content =
     str_replace (str_replace template ''{{TITLE}}'' title) ''{{CONTENT}}'' html_content"

section \<open>Templates as pieces\<close>

text \<open>
  For the statement about template substitution: a text built from pieces, each a
  stretch of text or one of the two placeholder tokens. \<open>plain\<close> asks that a stretch of
  text holds no two opening braces in a row and does not end with an opening brace, so
  that the tokens of the text are exactly its token pieces. \<open>fill t h\<close> puts \<open>t\<close>
  for the title token and \<open>h\<close> for the content token.
\<close>

datatype piece = Text string | TitleToken | ContentToken

fun render_piece :: "piece \<Rightarrow> string" where
  "render_piece (Text s) = s"
| "render_piece TitleToken = ''{{TITLE}}''"
| "render_piece ContentToken = ''{{CONTENT}}''"

definition render :: "piece list \<Rightarrow> string" where
  "render ps = concat (map render_piece ps)"

fun no_open_pair :: "string \<Rightarrow> bool" where
  "no_open_pair [] = True"
| "no_open_pair [c] = (c \<noteq> CHR ''{'')"
| "no_open_pair (c # d # cs) = (\<not> (c = CHR ''{'' \<and> d = CHR ''{'') \<and> no_open_pair (d # cs))"

fun plain :: "piece \<Rightarrow> bool" where
  "plain (Text s) = no_open_pair s"
| "plain TitleToken = True"
| "plain ContentToken = True"

fun fill :: "string \<Rightarrow> string \<Rightarrow> piece \<Rightarrow> string" where
  "fill t h (Text s) = s"
| "fill t h TitleToken = t"
| "fill t h ContentToken = h"

text \<open>The pieces of the template after the title's pieces took the place of its title tokens.\<close>

fun splice :: "piece list \<Rightarrow> piece \<Rightarrow> piece list" where
  "splice tps TitleToken = tps"
| "splice tps p = [p]"

section \<open>The matcher, one input character at a time\<close>

declare match_here.simps(6-10) [simp del]

declare sub_from.simps [simp del]

lemma consume_eq_None [simp]: "consume x m = None \<longleftrightarrow> m = None"
  by (cases m) auto

lemma match_once_Nil [simp]: "match_here f (Ch c Once # ps) prev [] = None"
  by (simp add: match_here.simps)

lemma match_once_Cons [simp]:
  "match_here f (Ch c Once # ps) prev (x # xs) =
     (if cls_ok f c x then consume x (match_here f ps (Some x) xs) else None)"
  by (simp add: match_here.simps)

lemma match_star_Nil [simp]:
  "match_here f (Ch c Star # ps) prev [] = match_here f ps prev []"
  by (simp add: match_here.simps)

lemma match_star_Cons [simp]:
  "match_here f (Ch c Star # ps) prev (x # xs) =
     (if cls_ok f c x
      then (case consume x (match_here f (Ch c Star # ps) (Some x) xs) of
              Some m \<Rightarrow> Some m
            | None \<Rightarrow> match_here f ps prev (x # xs))
      else match_here f ps prev (x # xs))"
  by (simp add: match_here.simps)

lemma match_plus_Nil [simp]: "match_here f (Ch c Plus # ps) prev [] = None"
  by (simp add: match_here.simps)

lemma match_plus_Cons [simp]:
  "match_here f (Ch c Plus # ps) prev (x # xs) =
     (if cls_ok f c x then consume x (match_here f (Ch c Star # ps) (Some x) xs) else None)"
  by (simp add: match_here.simps)

lemma match_opt_Nil [simp]:
  "match_here f (Ch c Opt # ps) prev [] = match_here f ps prev []"
  by (simp add: match_here.simps)

lemma match_opt_Cons [simp]:
  "match_here f (Ch c Opt # ps) prev (x # xs) =
     (if cls_ok f c x
      then (case consume x (match_here f ps (Some x) xs) of
              Some m \<Rightarrow> Some m
            | None \<Rightarrow> match_here f ps prev (x # xs))
      else match_here f ps prev (x # xs))"
  by (simp add: match_here.simps)

lemma match_lazy_hit:
  "match_here f ps prev s = Some m \<Longrightarrow> match_here f (Ch c LazyStar # ps) prev s = Some m"
  by (simp add: match_here.simps)

lemma match_lazy_step:
  "match_here f ps prev (x # xs) = None \<Longrightarrow> cls_ok f c x \<Longrightarrow>
   match_here f (Ch c LazyStar # ps) prev (x # xs)
     = consume x (match_here f (Ch c LazyStar # ps) (Some x) xs)"
  by (simp add: match_here.simps)

lemma sub_from_no_match:
  "match_here f p prev s = None \<Longrightarrow>
   sub_from f p t prev s = (case s of [] \<Rightarrow> [] | x # xs \<Rightarrow> x # sub_from f p t (Some x) xs)"
  by (simp add: sub_from.simps [of f p t prev s])

lemma sub_from_match:
  "match_here f p prev s = Some (r, u, g) \<Longrightarrow> length r < length s \<Longrightarrow>
   sub_from f p t prev s = expand t g @ sub_from f p t (Some (s ! (length s - length r - 1))) r"
  by (simp add: sub_from.simps [of f p t prev s])

lemma sub_from_skip:
  assumes "\<And>x xs prev. x \<noteq> CHR ''`'' \<Longrightarrow> match_here f p prev (x # xs) = None"
    and "CHR ''`'' \<notin> set a"
    and "\<And>prev. sub_from f p t prev rest = rest"
  shows "sub_from f p t prev (a @ rest) = a @ rest"
  using assms(2)
proof (induction a arbitrary: prev)
  case Nil
  then show ?case by (simp add: assms(3))
next
  case (Cons x xs)
  then have "match_here f p prev (x # xs @ rest) = None"
    by (intro assms(1)) auto
  with Cons show ?case by (simp add: sub_from_no_match)
qed

section \<open>Facts about lines\<close>

lemma split_nl_not_Nil: "split_nl s \<noteq> []"
  by (induction s) (auto split: list.splits)

lemma split_nl_append_nl:
  "nl \<notin> set l \<Longrightarrow> split_nl (l @ nl # s) = l # split_nl s"
  by (induction l) auto

lemma split_nl_no_nl: "nl \<notin> set l \<Longrightarrow> split_nl l = [l]"
  by (induction l) auto

lemma split_join_nl:
  "ls \<noteq> [] \<Longrightarrow> list_all (\<lambda>l. nl \<notin> set l) ls \<Longrightarrow> split_nl (join_nl ls) = ls"
proof (induction ls rule: join_nl.induct)
  case 1
  then show ?case by simp
next
  case (2 l)
  then show ?case by (simp add: split_nl_no_nl)
next
  case (3 l m ls)
  then show ?case by (simp add: split_nl_append_nl)
qed

lemma split_nl_lines: "list_all (\<lambda>l. nl \<notin> set l) (split_nl s)"
  by (induction s) (auto split: list.splits)

lemma wrap_line_no_nl: "nl \<notin> set l \<Longrightarrow> nl \<notin> set (wrap_line l)"
  by (simp add: wrap_line_def)

lemma wrap_line_idem: "wrap_line (wrap_line l) = wrap_line l"
  by (simp add: wrap_line_def)

lemma split_wrap_paragraphs:
  "split_nl (wrap_paragraphs content) = map wrap_line (split_nl content)"
proof -
  have "list_all (\<lambda>l. nl \<notin> set l) (map wrap_line (split_nl content))"
    using split_nl_lines [of content]
    by (simp add: list_all_iff wrap_line_no_nl)
  then show ?thesis
    unfolding wrap_paragraphs_def
    by (intro split_join_nl) (simp_all add: split_nl_not_Nil)
qed

lemma strip_empty_iff: "strip l = [] \<longleftrightarrow> list_all is_space l"
proof (cases "dropWhile is_space l = []")
  case True
  have "strip l = []" unfolding strip_def True by simp
  moreover have "list_all is_space l" using True by (simp add: list_all_iff)
  ultimately show ?thesis by simp
next
  case False
  then have "\<not> is_space (hd (dropWhile is_space l))" by (rule hd_dropWhile)
  moreover have "hd (dropWhile is_space l) \<in> set (dropWhile is_space l)"
    using False by (rule hd_in_set)
  ultimately have "strip l \<noteq> []" by (auto simp: strip_def)
  moreover have "\<not> list_all is_space l" using False by (simp add: list_all_iff)
  ultimately show ?thesis by simp
qed

section \<open>The paragraph pass\<close>

lemma wrap_paragraphs_idem:
  "wrap_paragraphs (wrap_paragraphs content) = wrap_paragraphs content"
proof -
  have "wrap_paragraphs (wrap_paragraphs content)
      = join_nl (map wrap_line (split_nl (wrap_paragraphs content)))"
    by (simp add: wrap_paragraphs_def)
  also have "\<dots> = join_nl (map wrap_line (split_nl content))"
    by (simp add: split_wrap_paragraphs wrap_line_idem comp_def)
  finally show ?thesis by (simp add: wrap_paragraphs_def)
qed

text \<open>
  C6, as the code has it. The claim says that some document is changed by a second run
  of the paragraph pass, a line that is already a paragraph element being wrapped once
  more. The pass leaves every line alone that starts with \<open><\<close>, and a wrapped line does:
  a second run changes no document, and a line that is a paragraph element stays as it
  is.
\<close>

theorem wrap_paragraphs_twice:
  "wrap_paragraphs (wrap_paragraphs content) = wrap_paragraphs content
   \<and> wrap_line (''<p>'' @ line @ ''</p>'') = ''<p>'' @ line @ ''</p>''"
  by (simp add: wrap_paragraphs_idem) (simp add: wrap_line_def)

text \<open>
  C6, as the claim states it, is false: no document is changed by a second run of the
  paragraph pass.
\<close>

theorem no_document_is_wrapped_twice:
  "\<not> (\<exists>content. wrap_paragraphs (wrap_paragraphs content) \<noteq> wrap_paragraphs content)"
  by (simp add: wrap_paragraphs_idem)

text \<open>
  C9: blankness is decided on the trimmed line, the markup check on the untrimmed one.
  For every line of the document: a line of whitespace only passes through the
  paragraph pass unchanged; a line that holds a character that is not whitespace and
  that starts with a whitespace character comes out wrapped in a paragraph element,
  whatever its first character that is not whitespace; a line whose very first
  character is \<open><\<close> passes through unchanged. The pass keeps the number of lines.
\<close>

theorem indented_line_is_wrapped:
  assumes "i < length (split_nl content)"
  shows "length (split_nl (wrap_paragraphs content)) = length (split_nl content)
    \<and> (list_all is_space (split_nl content ! i)
          \<longrightarrow> split_nl (wrap_paragraphs content) ! i = split_nl content ! i)
    \<and> (\<not> list_all is_space (split_nl content ! i) \<and> split_nl content ! i \<noteq> []
          \<and> is_space (hd (split_nl content ! i))
          \<longrightarrow> split_nl (wrap_paragraphs content) ! i = ''<p>'' @ split_nl content ! i @ ''</p>'')
    \<and> (prefix ''<'' (split_nl content ! i)
          \<longrightarrow> split_nl (wrap_paragraphs content) ! i = split_nl content ! i)"
proof (intro conjI impI)
  show "length (split_nl (wrap_paragraphs content)) = length (split_nl content)"
    by (simp add: split_wrap_paragraphs)
next
  assume "list_all is_space (split_nl content ! i)"
  then have "wrap_line (split_nl content ! i) = split_nl content ! i"
    by (simp add: wrap_line_def strip_empty_iff)
  with assms show "split_nl (wrap_paragraphs content) ! i = split_nl content ! i"
    by (simp add: split_wrap_paragraphs)
next
  assume a: "\<not> list_all is_space (split_nl content ! i) \<and> split_nl content ! i \<noteq> []
          \<and> is_space (hd (split_nl content ! i))"
  then obtain c cs where l: "split_nl content ! i = c # cs"
    by (cases "split_nl content ! i") auto
  with a have "is_space c" by simp
  then have "c \<noteq> CHR ''<''" by (auto simp: is_space_def)
  with l a have "wrap_line (split_nl content ! i) = ''<p>'' @ split_nl content ! i @ ''</p>''"
    by (simp add: wrap_line_def strip_empty_iff)
  with assms show "split_nl (wrap_paragraphs content) ! i = ''<p>'' @ split_nl content ! i @ ''</p>''"
    by (simp add: split_wrap_paragraphs)
next
  assume "prefix ''<'' (split_nl content ! i)"
  then have "wrap_line (split_nl content ! i) = split_nl content ! i"
    by (simp add: wrap_line_def)
  with assms show "split_nl (wrap_paragraphs content) ! i = split_nl content ! i"
    by (simp add: split_wrap_paragraphs)
qed

text \<open>
  The document of the three lines \<^verbatim>\<open>  <ul>\<close> (indented), three spaces, and \<^verbatim>\<open><ul>\<close>:
  the first is wrapped, the other two pass through.
\<close>

theorem indented_line_is_wrapped_witness:
  "split_nl ''  <ul>\<newline>   \<newline><ul>'' = [''  <ul>'', ''   '', ''<ul>'']
   \<and> \<not> list_all is_space ''  <ul>'' \<and> is_space (hd ''  <ul>'')
   \<and> list_all is_space ''   ''
   \<and> prefix ''<'' ''<ul>''
   \<and> split_nl (wrap_paragraphs ''  <ul>\<newline>   \<newline><ul>'') ! 0 = ''<p>  <ul></p>''
   \<and> split_nl (wrap_paragraphs ''  <ul>\<newline>   \<newline><ul>'') ! 1 = ''   ''
   \<and> split_nl (wrap_paragraphs ''  <ul>\<newline>   \<newline><ul>'') ! 2 = ''<ul>''
   \<and> wrap_paragraphs ''  <ul>\<newline>   \<newline><ul>'' = ''<p>  <ul></p>\<newline>   \<newline><ul>''"
proof -
  have s: "split_nl ''  <ul>\<newline>   \<newline><ul>'' = [''  <ul>'', ''   '', ''<ul>'']" by simp
  have h1: "\<not> list_all is_space ''  <ul>''" by (simp add: is_space_def)
  have h2: "is_space (hd ''  <ul>'')" by (simp add: is_space_def)
  have h3: "list_all is_space ''   ''" by (simp add: is_space_def)
  have h4: "prefix ''<'' ''<ul>''" by simp
  have w: "wrap_paragraphs ''  <ul>\<newline>   \<newline><ul>'' = ''<p>  <ul></p>\<newline>   \<newline><ul>''"
    by code_simp
  have l0: "split_nl (wrap_paragraphs ''  <ul>\<newline>   \<newline><ul>'') ! 0 = ''<p>  <ul></p>''"
    using indented_line_is_wrapped [of 0 "''  <ul>\<newline>   \<newline><ul>''"] h1 h2
    by (simp add: s)
  have l1: "split_nl (wrap_paragraphs ''  <ul>\<newline>   \<newline><ul>'') ! 1 = ''   ''"
    using indented_line_is_wrapped [of 1 "''  <ul>\<newline>   \<newline><ul>''"] h3
    by (simp add: s)
  have l2: "split_nl (wrap_paragraphs ''  <ul>\<newline>   \<newline><ul>'') ! 2 = ''<ul>''"
    using indented_line_is_wrapped [of 2 "''  <ul>\<newline>   \<newline><ul>''"] h4
    by (simp add: s)
  from s h1 h2 h3 h4 l0 l1 l2 w show ?thesis by simp
qed

section \<open>No stage fails\<close>

lemma code_blocks_ok: "\<exists>out. code_blocks content = Inr out"
  by (simp add: code_blocks_def and_then_def re_sub_def n_groups_def lits_def
      fence_dart_def fence_tagged_def fence_untagged_def pre_dart_def pre_tagged_def)

lemma inline_code_ok: "\<exists>out. inline_code content = Inr out"
  by (simp add: inline_code_def re_sub_def n_groups_def inline_pattern_def)

lemma headers_ok: "\<exists>out. headers content = Inr out"
  by (simp add: headers_def and_then_def re_sub_def n_groups_def lits_def
      header_pattern_def header_template_def)

lemma cleaned_line_ok:
  "re_sub NOFLAGS numbered_pattern [] line = Inr (sub_from NOFLAGS numbered_pattern [] None line)"
  by (simp add: re_sub_def)

lemma list_loop_ok: "\<exists>out. list_loop result in_ul in_ol lines = Inr out"
  by (induction lines arbitrary: result in_ul in_ol) (simp_all add: cleaned_line_ok)

lemma lists_ok: "\<exists>out. lists content = Inr out"
proof -
  obtain r where "list_loop [] False False (split_nl content) = Inr r"
    using list_loop_ok by blast
  then show ?thesis by (simp add: lists_def and_then_def)
qed

lemma emphasis_ok: "\<exists>out. emphasis content = Inr out"
  by (simp add: emphasis_def and_then_def re_sub_def n_groups_def lits_def
      bold_pattern_def italic_pattern_def)

lemma links_ok: "\<exists>out. links content = Inr out"
  by (simp add: links_def re_sub_def n_groups_def lits_def link_pattern_def)

text \<open>
  C7: for every input string the transform returns a string. Every function of the
  model is total, and the one failure the operations of the transform know, a template
  that names a group its pattern does not have, arises for no input.
\<close>

theorem convert_markdown_to_html_returns: "\<exists>html. convert_markdown_to_html content = Inr html"
proof -
  obtain c1 where c1: "code_blocks content = Inr c1" using code_blocks_ok by blast
  obtain c2 where c2: "inline_code c1 = Inr c2" using inline_code_ok by blast
  obtain c3 where c3: "headers c2 = Inr c3" using headers_ok by blast
  obtain c4 where c4: "lists c3 = Inr c4" using lists_ok by blast
  obtain c5 where c5: "emphasis c4 = Inr c5" using emphasis_ok by blast
  obtain c6 where c6: "links c5 = Inr c6" using links_ok by blast
  show ?thesis
    by (simp add: convert_markdown_to_html_def and_then_def c1 c2 c3 c4 c5 c6)
qed

section \<open>Template substitution\<close>

lemma str_replace_skip:
  "no_open_pair s \<Longrightarrow>
   str_replace (s @ rest) (CHR ''{'' # CHR ''{'' # old) new
     = s @ str_replace rest (CHR ''{'' # CHR ''{'' # old) new"
proof (induction s rule: no_open_pair.induct)
  case 1
  then show ?case by simp
next
  case (2 c)
  then show ?case by simp
next
  case (3 c d cs)
  then show ?case by auto
qed

lemma str_replace_hit:
  "old \<noteq> [] \<Longrightarrow> str_replace (old @ rest) old new = new @ str_replace rest old new"
  by (cases old) auto

lemma title_pass_content_token:
  "str_replace (''{{CONTENT}}'' @ rest) ''{{TITLE}}'' new = ''{{CONTENT}}'' @ str_replace rest ''{{TITLE}}'' new"
  by simp

lemma content_pass_title_token:
  "str_replace (''{{TITLE}}'' @ rest) ''{{CONTENT}}'' new = ''{{TITLE}}'' @ str_replace rest ''{{CONTENT}}'' new"
  by simp

lemma title_pass:
  "list_all plain ps \<Longrightarrow>
   str_replace (render ps @ rest) ''{{TITLE}}'' t = concat (map (fill t ''{{CONTENT}}'') ps) @ str_replace rest ''{{TITLE}}'' t"
proof (induction ps)
  case Nil
  then show ?case by (simp add: render_def)
next
  case (Cons p ps)
  then have ih: "str_replace (render ps @ rest) ''{{TITLE}}'' t
     = concat (map (fill t ''{{CONTENT}}'') ps) @ str_replace rest ''{{TITLE}}'' t" by simp
  show ?case
  proof (cases p)
    case (Text s)
    with Cons.prems have "no_open_pair s" by simp
    then have "str_replace (s @ render ps @ rest) ''{{TITLE}}'' t = s @ str_replace (render ps @ rest) ''{{TITLE}}'' t"
      by (rule str_replace_skip)
    with Text ih show ?thesis by (simp add: render_def)
  next
    case TitleToken
    have "str_replace (''{{TITLE}}'' @ render ps @ rest) ''{{TITLE}}'' t = t @ str_replace (render ps @ rest) ''{{TITLE}}'' t"
      by (intro str_replace_hit) simp
    with TitleToken ih show ?thesis by (simp add: render_def)
  next
    case ContentToken
    have "str_replace (''{{CONTENT}}'' @ render ps @ rest) ''{{TITLE}}'' t = ''{{CONTENT}}'' @ str_replace (render ps @ rest) ''{{TITLE}}'' t"
      by (rule title_pass_content_token)
    with ContentToken ih show ?thesis by (simp add: render_def)
  qed
qed

lemma content_pass:
  "list_all plain ps \<Longrightarrow>
   str_replace (render ps @ rest) ''{{CONTENT}}'' h = concat (map (fill ''{{TITLE}}'' h) ps) @ str_replace rest ''{{CONTENT}}'' h"
proof (induction ps)
  case Nil
  then show ?case by (simp add: render_def)
next
  case (Cons p ps)
  then have ih: "str_replace (render ps @ rest) ''{{CONTENT}}'' h
     = concat (map (fill ''{{TITLE}}'' h) ps) @ str_replace rest ''{{CONTENT}}'' h" by simp
  show ?case
  proof (cases p)
    case (Text s)
    with Cons.prems have "no_open_pair s" by simp
    then have "str_replace (s @ render ps @ rest) ''{{CONTENT}}'' h = s @ str_replace (render ps @ rest) ''{{CONTENT}}'' h"
      by (rule str_replace_skip)
    with Text ih show ?thesis by (simp add: render_def)
  next
    case TitleToken
    have "str_replace (''{{TITLE}}'' @ render ps @ rest) ''{{CONTENT}}'' h = ''{{TITLE}}'' @ str_replace (render ps @ rest) ''{{CONTENT}}'' h"
      by (rule content_pass_title_token)
    with TitleToken ih show ?thesis by (simp add: render_def)
  next
    case ContentToken
    have "str_replace (''{{CONTENT}}'' @ render ps @ rest) ''{{CONTENT}}'' h = h @ str_replace (render ps @ rest) ''{{CONTENT}}'' h"
      by (intro str_replace_hit) simp
    with ContentToken ih show ?thesis by (simp add: render_def)
  qed
qed

lemma render_splice:
  "concat (map (fill (render tps) ''{{CONTENT}}'') ps) = render (concat (map (splice tps) ps))"
proof (induction ps)
  case Nil
  then show ?case by (simp add: render_def)
next
  case (Cons p ps)
  then show ?case by (cases p) (simp_all add: render_def)
qed

lemma fill_splice:
  "concat (map (fill ''{{TITLE}}'' h) (concat (map (splice tps) ps)))
   = concat (map (fill (concat (map (fill ''{{TITLE}}'' h) tps)) h) ps)"
proof (induction ps)
  case Nil
  then show ?case by simp
next
  case (Cons p ps)
  then show ?case by (cases p) simp_all
qed

lemma plain_splice: "list_all plain tps \<Longrightarrow> list_all plain ps \<Longrightarrow> list_all plain (concat (map (splice tps) ps))"
proof (induction ps)
  case Nil
  then show ?case by simp
next
  case (Cons p ps)
  then show ?case by (cases p) simp_all
qed

text \<open>
  C8: every title token and every content token of the template is replaced, not only
  the first of each, and the title goes in before the content does: a content token
  inside the title is replaced by the HTML body as well (a title token inside the title
  stays as it is, since the text put in is not scanned again).
\<close>

theorem final_html_all:
  assumes "list_all plain template" and "list_all plain title"
  shows "final_html (render template) (render title) html_content
     = concat (map (fill (concat (map (fill ''{{TITLE}}'' html_content) title)) html_content) template)"
proof -
  have "str_replace (render template) ''{{TITLE}}'' (render title)
      = render (concat (map (splice title) template))"
    using title_pass [OF assms(1), of "[]" "render title"] by (simp add: render_splice)
  moreover have "str_replace (render (concat (map (splice title) template))) ''{{CONTENT}}'' html_content
      = concat (map (fill ''{{TITLE}}'' html_content) (concat (map (splice title) template)))"
    using content_pass [OF plain_splice [OF assms(2) assms(1)], of "[]" html_content] by simp
  ultimately show ?thesis by (simp add: final_html_def fill_splice)
qed

text \<open>
  The template \<^verbatim>\<open><b>{x}{{TITLE}}</b>{{CONTENT}}{{TITLE}}\<close> with the title
  \<^verbatim>\<open>T{{CONTENT}}\<close> and the body \<^verbatim>\<open><p>{{TITLE}}</p>\<close>.
\<close>

theorem final_html_all_witness:
  "list_all plain [Text ''<b>{x}'', TitleToken, Text ''</b>'', ContentToken, TitleToken]
   \<and> list_all plain [Text ''T'', ContentToken]
   \<and> final_html ''<b>{x}{{TITLE}}</b>{{CONTENT}}{{TITLE}}'' ''T{{CONTENT}}'' ''<p>{{TITLE}}</p>''
       = ''<b>{x}T<p>{{TITLE}}</p></b><p>{{TITLE}}</p>T<p>{{TITLE}}</p>''"
proof -
  have h1: "list_all plain [Text ''<b>{x}'', TitleToken, Text ''</b>'', ContentToken, TitleToken]"
    by simp
  have h2: "list_all plain [Text ''T'', ContentToken]"
    by simp
  from final_html_all [OF h1 h2, of "''<p>{{TITLE}}</p>''"] h1 h2 show ?thesis
    by (simp add: render_def)
qed

section \<open>Inline code\<close>













section \<open>The numbered marker\<close>

lemma marker_tail_iff:
  "match_here NOFLAGS marker_tail prev r \<noteq> None
     \<longleftrightarrow> (\<exists>c rest. c \<noteq> nl \<and> r = backslash # c # CHR '' '' # rest)"
proof (cases r)
  case Nil
  then show ?thesis by simp
next
  case r1: (Cons x1 r1)
  show ?thesis
  proof (cases r1)
    case Nil
    with r1 show ?thesis by simp
  next
    case r2: (Cons x2 r2)
    show ?thesis
    proof (cases r2)
      case Nil
      with r1 r2 show ?thesis by simp
    next
      case (Cons x3 r3)
      with r1 r2 show ?thesis by (auto simp: NOFLAGS_def)
    qed
  qed
qed

lemma digit_not_backslash: "is_digit x \<Longrightarrow> x \<noteq> backslash"
  by (auto simp: is_digit_def)

lemma digits_then_tail_iff:
  "match_here NOFLAGS (Ch Digit Star # marker_tail) prev s \<noteq> None
     \<longleftrightarrow> (\<exists>c rest. c \<noteq> nl \<and> dropWhile is_digit s = backslash # c # CHR '' '' # rest)"
proof (induction s arbitrary: prev)
  case Nil
  then show ?case by simp
next
  case (Cons x xs)
  show ?case
  proof (cases "is_digit x")
    case True
    then have nb: "x \<noteq> backslash" by (rule digit_not_backslash)
    show ?thesis
    proof (cases "match_here NOFLAGS (Ch Digit Star # marker_tail) (Some x) xs")
      case None
      with True nb Cons [of "Some x"] show ?thesis by simp
    next
      case (Some m)
      with True Cons [of "Some x"] show ?thesis by (cases m) auto
    qed
  next
    case False
    then have "match_here NOFLAGS (Ch Digit Star # marker_tail) prev (x # xs)
        = match_here NOFLAGS marker_tail prev (x # xs)"
      by simp
    with False show ?thesis using marker_tail_iff [of prev "x # xs"] by simp
  qed
qed

lemma numbered_exec:
  "re_match NOFLAGS numbered_pattern line
     \<longleftrightarrow> (takeWhile is_digit line \<noteq> []
          \<and> (\<exists>c rest. c \<noteq> nl \<and> dropWhile is_digit line = backslash # c # CHR '' '' # rest))"
proof (cases line)
  case Nil
  then show ?thesis by (simp add: re_match_def numbered_pattern_def at_bol_def)
next
  case (Cons x xs)
  show ?thesis
  proof (cases "is_digit x")
    case True
    with Cons show ?thesis
      using digits_then_tail_iff [of "Some x" xs]
      by (simp add: re_match_def numbered_pattern_def at_bol_def)
  next
    case False
    with Cons show ?thesis
      by (simp add: re_match_def numbered_pattern_def at_bol_def)
  qed
qed

lemma numbered_iff:
  "re_match NOFLAGS numbered_pattern line
     \<longleftrightarrow> (\<exists>ds c rest. ds \<noteq> [] \<and> list_all is_digit ds \<and> c \<noteq> nl
            \<and> line = ds @ backslash # c # CHR '' '' # rest)"
proof
  assume "re_match NOFLAGS numbered_pattern line"
  then obtain c rest where t: "takeWhile is_digit line \<noteq> []"
    and d: "c \<noteq> nl" "dropWhile is_digit line = backslash # c # CHR '' '' # rest"
    by (auto simp: numbered_exec)
  have "list_all is_digit (takeWhile is_digit line)"
    by (auto simp: list_all_iff dest: set_takeWhileD)
  moreover have "line = takeWhile is_digit line @ backslash # c # CHR '' '' # rest"
    using takeWhile_dropWhile_id [of is_digit line] d(2) by simp
  ultimately show "\<exists>ds c rest. ds \<noteq> [] \<and> list_all is_digit ds \<and> c \<noteq> nl
            \<and> line = ds @ backslash # c # CHR '' '' # rest"
    using t d(1) by blast
next
  assume "\<exists>ds c rest. ds \<noteq> [] \<and> list_all is_digit ds \<and> c \<noteq> nl
            \<and> line = ds @ backslash # c # CHR '' '' # rest"
  then obtain ds c rest where ds: "ds \<noteq> []" "list_all is_digit ds" and c: "c \<noteq> nl"
    and l: "line = ds @ backslash # c # CHR '' '' # rest" by blast
  have all: "\<forall>x\<in>set ds. is_digit x" using ds(2) by (simp add: list_all_iff)
  have nb: "\<not> is_digit backslash" using digit_not_backslash by blast
  have "takeWhile is_digit line = ds"
    unfolding l using all nb by (simp add: takeWhile_tail)
  moreover have "dropWhile is_digit line = backslash # c # CHR '' '' # rest"
    unfolding l using all nb by (simp add: dropWhile_append2)
  ultimately show "re_match NOFLAGS numbered_pattern line"
    using ds(1) c by (simp add: numbered_exec)
qed

text \<open>
  C4, where the code leaves the claim: the line \<^verbatim>\<open>1\x item\<close> has no period after its
  backslash, and the list scanner takes it for a numbered item and strips the marker,
  because the dot of the pattern stands for any character. On the marker the claim
  names, \<^verbatim>\<open>1\. item\<close>, and on \<^verbatim>\<open>1. item\<close>, which stays as it is, the code does what
  the claim says.
\<close>

theorem numbered_item_without_period:
  "re_match NOFLAGS numbered_pattern (''1'' @ backslash # ''x item'')
   \<and> \<not> spec_numbered_marker (''1'' @ backslash # ''x item'')
   \<and> lists (''1'' @ backslash # ''x item'') = Inr ''<ol>\<newline><li>item</li>\<newline></ol>''
   \<and> re_match NOFLAGS numbered_pattern (''1'' @ backslash # ''. item'')
   \<and> spec_numbered_marker (''1'' @ backslash # ''. item'')
   \<and> \<not> re_match NOFLAGS numbered_pattern ''1. item''
   \<and> \<not> spec_numbered_marker ''1. item''
   \<and> lists ''1. item'' = Inr ''1. item''"
  by code_simp

section \<open>Fenced code blocks\<close>

lemma fence_body:
  "CHR ''`'' \<notin> set body \<Longrightarrow>
   match_here f (Ch AnyChar LazyStar # GrpClose # lits ''```'') prev (body @ ''```'')
     = Some ([], body, [])"
proof (induction body arbitrary: prev)
  case Nil
  have "match_here f (GrpClose # lits ''```'') prev ''```'' = Some ([], [], [])"
    by (simp add: lits_def)
  then show ?case by (simp add: match_lazy_hit)
next
  case (Cons x xs)
  then have "match_here f (GrpClose # lits ''```'') prev (x # xs @ ''```'') = None"
    by (auto simp: lits_def)
  then have "match_here f (Ch AnyChar LazyStar # GrpClose # lits ''```'') prev (x # xs @ ''```'')
      = consume x (match_here f (Ch AnyChar LazyStar # GrpClose # lits ''```'') (Some x) (xs @ ''```''))"
    by (intro match_lazy_step) simp_all
  with Cons show ?case by simp
qed

lemma not_letter_nl: "\<not> is_letter nl"
  by (simp add: is_letter_def)

lemma fence_tagged_untagged_block:
  assumes "CHR ''`'' \<notin> set body"
  shows "match_here f fence_tagged prev (''```'' @ nl # body @ ''```'')
     = Some ([], ''```'', [[], body])"
proof -
  have "match_here f (Ch AnyChar LazyStar # GrpClose # lits ''```'') (Some nl) (body @ ''```'')
     = Some ([], body, [])"
    using assms by (rule fence_body)
  then show ?thesis
    by (simp add: fence_tagged_def lits_def not_letter_nl)
qed

lemma fence_dart_plain:
  "x \<noteq> CHR ''`'' \<Longrightarrow> match_here f fence_dart prev (x # xs) = None"
  by (simp add: fence_dart_def lits_def)

lemma fence_untagged_plain:
  "x \<noteq> CHR ''`'' \<Longrightarrow> match_here f fence_untagged prev (x # xs) = None"
  by (simp add: fence_untagged_def lits_def)

lemma fence_dart_closing:
  "sub_from f fence_dart t prev ''```'' = ''```''"
  by (simp add: sub_from_no_match fence_dart_def lits_def)

lemma fence_dart_untagged_block:
  assumes "CHR ''`'' \<notin> set body"
  shows "sub_from f fence_dart t prev (''```'' @ nl # body @ ''```'') = ''```'' @ nl # body @ ''```''"
proof -
  have b: "sub_from f fence_dart t prev' (body @ ''```'') = body @ ''```''" for prev'
    using assms by (intro sub_from_skip) (simp_all add: fence_dart_plain fence_dart_closing)
  have "sub_from f fence_dart t prev' (nl # body @ ''```'') = nl # body @ ''```''" for prev'
    by (simp add: sub_from_no_match fence_dart_plain b)
  then show ?thesis
    by (simp add: sub_from_no_match fence_dart_def lits_def)
qed

lemma fence_untagged_no_backtick:
  assumes "CHR ''`'' \<notin> set s"
  shows "sub_from f fence_untagged t prev s = s"
proof -
  have e: "sub_from f fence_untagged t prev' [] = []" for prev'
    by (simp add: sub_from_no_match fence_untagged_def lits_def)
  have "sub_from f fence_untagged t prev (s @ []) = s @ []"
    using assms by (intro sub_from_skip) (simp_all add: fence_untagged_plain e)
  then show ?thesis by simp
qed

text \<open>
  C1, at a fenced block without a tag, whatever its body as long as the body holds no
  backtick: the pattern for a tagged block takes the block with the empty tag, so that
  its class is \<^verbatim>\<open>language-\<close> with nothing behind it, and the pattern for an untagged
  block, which would give \<^verbatim>\<open>language-dart\<close>, finds nothing left.
\<close>

theorem untagged_fence_class:
  assumes "CHR ''`'' \<notin> set body"
  shows "code_blocks (''```'' @ nl # body @ ''```'')
     = Inr (''<pre class=\"language- line-numbers\"><code class=\"language-\">'' @ body @ ''</code></pre>'')"
proof -
  let ?doc = "''```'' @ nl # body @ ''```''"
  let ?out = "''<pre class=\"language- line-numbers\"><code class=\"language-\">'' @ body @ ''</code></pre>''"
  have p1: "re_sub MULTILINE_DOTALL fence_dart pre_dart ?doc = Inr ?doc"
    using fence_dart_untagged_block [OF assms, of MULTILINE_DOTALL pre_dart None]
    by (simp add: re_sub_def n_groups_def fence_dart_def lits_def pre_dart_def)
  have e: "sub_from MULTILINE_DOTALL fence_tagged t prev [] = []" for t prev
    by (simp add: sub_from_no_match fence_tagged_def lits_def)
  have "sub_from MULTILINE_DOTALL fence_tagged pre_tagged None ?doc
      = expand pre_tagged [[], body] @ sub_from MULTILINE_DOTALL fence_tagged pre_tagged
          (Some (?doc ! (length ?doc - length ([]::string) - 1))) []"
    by (rule sub_from_match [OF fence_tagged_untagged_block [OF assms]]) simp
  also have "\<dots> = ?out"
    by (simp add: e expand_def pre_tagged_def)
  finally have p2: "re_sub MULTILINE_DOTALL fence_tagged pre_tagged ?doc = Inr ?out"
    by (simp add: re_sub_def n_groups_def fence_tagged_def lits_def pre_tagged_def)
  have "CHR ''`'' \<notin> set ?out" using assms by simp
  then have "sub_from MULTILINE_DOTALL fence_untagged pre_dart None ?out = ?out"
    by (rule fence_untagged_no_backtick)
  then have p3: "re_sub MULTILINE_DOTALL fence_untagged pre_dart ?out = Inr ?out"
    by (simp add: re_sub_def n_groups_def fence_untagged_def lits_def pre_dart_def)
  show ?thesis
    unfolding code_blocks_def p1 and_then_def using p2 p3 by simp
qed

text \<open>
  The block with the body \<^verbatim>\<open>x\<close> and a newline, through the whole transform; a block
  tagged \<^verbatim>\<open>dart\<close> and a block tagged \<^verbatim>\<open>py\<close> get the classes of their tags.
\<close>

theorem untagged_fence_class_witness:
  "CHR ''`'' \<notin> set ''x''
   \<and> code_blocks ''```\<newline>x```''
     = Inr ''<pre class=\"language- line-numbers\"><code class=\"language-\">x</code></pre>''
   \<and> convert_markdown_to_html ''```\<newline>x\<newline>```''
     = Inr ''<pre class=\"language- line-numbers\"><code class=\"language-\">x\<newline></code></pre>''
   \<and> convert_markdown_to_html ''```dart\<newline>x\<newline>```''
     = Inr ''<pre class=\"language-dart line-numbers\"><code class=\"language-dart\">x\<newline></code></pre>''
   \<and> convert_markdown_to_html ''```py\<newline>x\<newline>```''
     = Inr ''<pre class=\"language-py line-numbers\"><code class=\"language-py\">x\<newline></code></pre>''"
proof -
  have h: "CHR ''`'' \<notin> set ''x''" by simp
  have e1: "convert_markdown_to_html ''```\<newline>x\<newline>```''
     = Inr ''<pre class=\"language- line-numbers\"><code class=\"language-\">x\<newline></code></pre>''"
    by code_simp
  have e2: "convert_markdown_to_html ''```dart\<newline>x\<newline>```''
     = Inr ''<pre class=\"language-dart line-numbers\"><code class=\"language-dart\">x\<newline></code></pre>''"
    by code_simp
  have e3: "convert_markdown_to_html ''```py\<newline>x\<newline>```''
     = Inr ''<pre class=\"language-py line-numbers\"><code class=\"language-py\">x\<newline></code></pre>''"
    by code_simp
  from untagged_fence_class [OF h] h e1 e2 e3 show ?thesis by simp
qed

section \<open>The list scanner\<close>

lemma list_loop_extends:
  "\<exists>rest. list_loop result in_ul in_ol lines = Inr (result @ rest)"
proof (induction lines arbitrary: result in_ul in_ol)
  case Nil
  then show ?case by simp
next
  case (Cons line lines)
  have step: "\<exists>rest. list_loop (result @ new) a b lines = Inr (result @ rest)" for new a b
  proof -
    obtain rest where "list_loop (result @ new) a b lines = Inr ((result @ new) @ rest)"
      using Cons [of "result @ new" a b] by blast
    then show ?thesis by simp
  qed
  show ?case
  proof (cases "re_match NOFLAGS bullet_pattern line")
    case True
    then show ?thesis
      using step [of "(if \<not> in_ul then [''<ul>''] else []) @ (if in_ol then [''</ol>''] else [])
             @ [''<li>'' @ drop 2 line @ ''</li>'']" True False]
      by simp
  next
    case False
    show ?thesis
    proof (cases "re_match NOFLAGS numbered_pattern line")
      case True
      with False show ?thesis
        using step [of "(if \<not> in_ol then [''<ol>''] else []) @ (if in_ul then [''</ul>''] else [])
                  @ [''<li>'' @ sub_from NOFLAGS numbered_pattern [] None line @ ''</li>'']" False True]
        by (simp add: cleaned_line_ok)
    next
      case n: False
      with False show ?thesis
        using step [of "(if in_ul then [''</ul>''] else []) @ (if in_ol then [''</ol>''] else [])
             @ [line]" False False]
        by simp
    qed
  qed
qed

lemma digit_not_dash: "is_digit x \<Longrightarrow> x \<noteq> CHR ''-''"
  by (auto simp: is_digit_def)

lemma numbered_not_bullet:
  assumes "re_match NOFLAGS numbered_pattern line"
  shows "\<not> re_match NOFLAGS bullet_pattern line"
proof -
  from assms have "takeWhile is_digit line \<noteq> []" by (simp add: numbered_exec)
  then obtain x xs where l: "line = x # xs" and d: "is_digit x"
    by (cases line) (auto split: if_splits)
  from d have "x \<noteq> CHR ''-''" by (rule digit_not_dash)
  with l show ?thesis by (simp add: re_match_def bullet_pattern_def lits_def at_bol_def)
qed

text \<open>
  C2, as the code has it: when a bullet run is open and a numbered line comes, the
  scanner appends the opening tag of the ordered list and only then the closing tag of
  the unordered list; when a numbered run is open and a bullet line comes, it appends
  the opening tag of the unordered list and only then the closing tag of the ordered
  list. The opening tag of the new run comes out before the closing tag of the open
  run.
\<close>

theorem list_switch_opens_before_closing:
  assumes "re_match NOFLAGS numbered_pattern numbered"
    and "re_match NOFLAGS bullet_pattern bullet"
  shows "(\<exists>rest. list_loop result True False (numbered # lines)
            = Inr (result @ ''<ol>'' # ''</ul>'' # rest))
    \<and> (\<exists>rest. list_loop result False True (bullet # lines)
            = Inr (result @ ''<ul>'' # ''</ol>'' # rest))"
proof
  have nb: "\<not> re_match NOFLAGS bullet_pattern numbered"
    using assms(1) by (rule numbered_not_bullet)
  obtain rest where
    "list_loop (result @ [''<ol>'', ''</ul>'',
         ''<li>'' @ sub_from NOFLAGS numbered_pattern [] None numbered @ ''</li>'']) False True lines
     = Inr ((result @ [''<ol>'', ''</ul>'',
         ''<li>'' @ sub_from NOFLAGS numbered_pattern [] None numbered @ ''</li>'']) @ rest)"
    using list_loop_extends by blast
  with nb assms(1) show "\<exists>rest. list_loop result True False (numbered # lines)
            = Inr (result @ ''<ol>'' # ''</ul>'' # rest)"
    by (simp add: cleaned_line_ok)
next
  obtain rest where
    "list_loop (result @ [''<ul>'', ''</ol>'', ''<li>'' @ drop 2 bullet @ ''</li>'']) True False lines
     = Inr ((result @ [''<ul>'', ''</ol>'', ''<li>'' @ drop 2 bullet @ ''</li>'']) @ rest)"
    using list_loop_extends by blast
  with assms(2) show "\<exists>rest. list_loop result False True (bullet # lines)
            = Inr (result @ ''<ul>'' # ''</ol>'' # rest)"
    by simp
qed

theorem list_switch_opens_before_closing_witness:
  "re_match NOFLAGS numbered_pattern (''1'' @ backslash # ''. b'')
   \<and> re_match NOFLAGS bullet_pattern ''- a''
   \<and> (\<exists>rest. list_loop [''<ul>'', ''<li>a</li>''] True False [''1'' @ backslash # ''. b'']
          = Inr ([''<ul>'', ''<li>a</li>''] @ ''<ol>'' # ''</ul>'' # rest))
   \<and> lists (''- a'' @ nl # ''1'' @ backslash # ''. b'')
     = Inr (join_nl [''<ul>'', ''<li>a</li>'', ''<ol>'', ''</ul>'', ''<li>b</li>'', ''</ol>''])
   \<and> lists (''1'' @ backslash # ''. b'' @ nl # ''- a'')
     = Inr (join_nl [''<ol>'', ''<li>b</li>'', ''<ul>'', ''</ol>'', ''<li>a</li>'', ''</ul>''])"
proof -
  have h1: "re_match NOFLAGS numbered_pattern (''1'' @ backslash # ''. b'')" by code_simp
  have h2: "re_match NOFLAGS bullet_pattern ''- a''" by code_simp
  have e1: "lists (''- a'' @ nl # ''1'' @ backslash # ''. b'')
     = Inr (join_nl [''<ul>'', ''<li>a</li>'', ''<ol>'', ''</ul>'', ''<li>b</li>'', ''</ol>''])"
    by code_simp
  have e2: "lists (''1'' @ backslash # ''. b'' @ nl # ''- a'')
     = Inr (join_nl [''<ol>'', ''<li>b</li>'', ''<ul>'', ''</ol>'', ''<li>a</li>'', ''</ul>''])"
    by code_simp
  from list_switch_opens_before_closing [OF h1 h2, of "[''<ul>'', ''<li>a</li>'']" "[]"]
  have "\<exists>rest. list_loop [''<ul>'', ''<li>a</li>''] True False [''1'' @ backslash # ''. b'']
          = Inr ([''<ul>'', ''<li>a</li>''] @ ''<ol>'' # ''</ul>'' # rest)"
    by blast
  with h1 h2 e1 e2 show ?thesis by blast
qed

section \<open>The transform on given documents\<close>

text \<open>
  C3: the transform of the document \<^verbatim>\<open># Title\<close>, empty line, \<^verbatim>\<open>Some *text*.\<close>, empty
  line, \<^verbatim>\<open>- one\<close>, \<^verbatim>\<open>- two\<close>, each line ended by a newline, is the heading element,
  an empty line, the paragraph with the emphasis element, an empty line, the opening
  tag of the unordered list, the two list items, the closing tag, and the newline that
  ends it.
\<close>

theorem end_to_end_scenario:
  "convert_markdown_to_html
     ''# Title\<newline>\<newline>Some *text*.\<newline>\<newline>- one\<newline>- two\<newline>''
   = Inr (join_nl [''<h1>Title</h1>'', '''', ''<p>Some <em>text</em>.</p>'', '''',
                   ''<ul>'', ''<li>one</li>'', ''<li>two</li>'', ''</ul>'', ''''])"
  by code_simp

text \<open>
  C5, as the code has it: the link stage turns \<^verbatim>\<open>[text](http://x)\<close> into the anchor
  element, and the paragraph pass, which runs after it, leaves the line alone because it
  now starts with \<open><\<close>: the transform returns the anchor element, unwrapped.
\<close>

theorem isolated_link_is_not_wrapped:
  "links ''[text](http://x)'' = Inr ''<a href=\"http://x\">text</a>''
   \<and> wrap_paragraphs ''<a href=\"http://x\">text</a>'' = ''<a href=\"http://x\">text</a>''
   \<and> convert_markdown_to_html ''[text](http://x)'' = Inr ''<a href=\"http://x\">text</a>''"
  by code_simp

text \<open>
  C5, as the claim states it, is false: the transform of \<^verbatim>\<open>[text](http://x)\<close> is not
  the anchor element inside a paragraph element.
\<close>

theorem isolated_link_in_paragraph_refuted:
  "convert_markdown_to_html ''[text](http://x)'' \<noteq> Inr ''<p><a href=\"http://x\">text</a></p>''"
  by code_simp

end
